theory Spec2Isabelle
  imports Complex_Main
begin

section \<open>Selection controller: the wind-farm map (ProperFleetMap)\<close>

text \<open>
  The interface \<open>WindFarm\<close> of the map components. The field \<open>id\<close> of the source is
  \<open>farm_id\<close> here and \<open>status\<close> is \<open>farm_status\<close>, since the message record below
  has fields of the same names. JavaScript numbers that hold coordinates and
  measurements are reals; the code only copies and compares them.
\<close>

datatype farm_condition = optimal | moderate | maintenance

record WindFarm =
  farm_id :: string
  name :: string
  lat :: real
  lng :: real
  turbineCount :: int
  totalPower :: real
  avgWindSpeed :: real
  efficiency :: int
  farm_status :: farm_condition
  region :: string
  state :: string

text \<open>The hard-coded array \<open>windFarms\<close>, in the order of the source.\<close>

definition windFarms :: "WindFarm list" where
  "windFarms =
    [\<lparr>farm_id = ''tx-panhandle'', name = ''Texas Panhandle Wind Complex'',
      lat = 35.2, lng = - 101.8, turbineCount = 25, totalPower = 87.5,
      avgWindSpeed = 18.5, efficiency = 94, farm_status = optimal,
      region = ''Great Plains'', state = ''Texas''\<rparr>,
     \<lparr>farm_id = ''ia-corn'', name = ''Iowa Corn Belt Wind Farm'',
      lat = 42.0, lng = - 93.5, turbineCount = 18, totalPower = 63.0,
      avgWindSpeed = 14.2, efficiency = 89, farm_status = optimal,
      region = ''Midwest'', state = ''Iowa''\<rparr>,
     \<lparr>farm_id = ''ca-tehachapi'', name = ''Tehachapi Pass Wind Farm'',
      lat = 35.1, lng = - 118.3, turbineCount = 15, totalPower = 52.5,
      avgWindSpeed = 16.8, efficiency = 92, farm_status = optimal,
      region = ''California'', state = ''California''\<rparr>,
     \<lparr>farm_id = ''wy-medicine'', name = ''Medicine Bow Wind Project'',
      lat = 41.9, lng = - 106.3, turbineCount = 12, totalPower = 42.0,
      avgWindSpeed = 22.3, efficiency = 96, farm_status = optimal,
      region = ''Rocky Mountains'', state = ''Wyoming''\<rparr>,
     \<lparr>farm_id = ''ok-corridor'', name = ''Oklahoma Wind Corridor'',
      lat = 35.5, lng = - 98.5, turbineCount = 20, totalPower = 70.0,
      avgWindSpeed = 17.9, efficiency = 91, farm_status = optimal,
      region = ''Great Plains'', state = ''Oklahoma''\<rparr>,
     \<lparr>farm_id = ''il-prairie'', name = ''Illinois Prairie Wind Farm'',
      lat = 40.8, lng = - 89.4, turbineCount = 10, totalPower = 35.0,
      avgWindSpeed = 12.5, efficiency = 87, farm_status = moderate,
      region = ''Midwest'', state = ''Illinois''\<rparr>]"

text \<open>
  The three pieces of component state of \<open>ProperFleetMap\<close>: \<open>selectedFarm\<close>
  (\<open>string | null\<close>), \<open>mapCenter\<close> and \<open>mapZoom\<close>, with their initial values.
\<close>

record map_state =
  selectedFarm :: "string option"
  mapCenter :: "real \<times> real"
  mapZoom :: int

definition overviewCenter :: "real \<times> real" where
  "overviewCenter = (39.5, - 98.5)"

definition overviewZoom :: int where
  "overviewZoom = 4"

definition zoomedInZoom :: int where
  "zoomedInZoom = 7"

definition initial_map_state :: map_state where
  "initial_map_state =
     \<lparr>selectedFarm = None, mapCenter = overviewCenter, mapZoom = overviewZoom\<rparr>"

text \<open>
  \<open>handleFarmClick(farmId, lat, lng)\<close>. Both tests read the \<open>selectedFarm\<close> of the
  render in which the handler was created, so all three setters see the old value.
  A \<open>null\<close> selection is equal to no string.
\<close>

definition handleFarmClick :: "string \<Rightarrow> real \<Rightarrow> real \<Rightarrow> map_state \<Rightarrow> map_state" where
  "handleFarmClick farmId lt lg s =
     \<lparr>selectedFarm = (if Some farmId = selectedFarm s then None else Some farmId),
      mapCenter = (if Some farmId \<noteq> selectedFarm s then (lt, lg) else overviewCenter),
      mapZoom = (if Some farmId \<noteq> selectedFarm s then zoomedInZoom else overviewZoom)\<rparr>"

text \<open>
  The click handlers of the markers and of the farm cards:
  \<open>() => handleFarmClick(farm.id, farm.lat, farm.lng)\<close>. This is the toggle of
  the selection as the user interface can call it.
\<close>

definition onFarmClick :: "WindFarm \<Rightarrow> map_state \<Rightarrow> map_state" where
  "onFarmClick farm s = handleFarmClick (farm_id farm) (lat farm) (lng farm) s"

fun clicks :: "WindFarm list \<Rightarrow> map_state \<Rightarrow> map_state" where
  "clicks [] s = s"
| "clicks (farm # farms) s = clicks farms (onFarmClick farm s)"

text \<open>
  \<open>createCustomIcon(status, isSelected)\<close>. The icon is described by what the
  template string and the options are computed from: the colour of the status,
  the size in pixels, whether the pulse animation (with its keyframes block) is
  present, and the three geometry options. The fixed SVG glyph is left out.
\<close>

record divIcon =
  color :: string
  size :: int
  pulse :: bool
  iconSize :: "int \<times> int"
  iconAnchor :: "real \<times> real"
  popupAnchor :: "real \<times> real"

definition statusColor :: "farm_condition \<Rightarrow> string" where
  "statusColor st =
     (if st = optimal then ''#10b981'' else if st = moderate then ''#f59e0b'' else ''#ef4444'')"

definition createCustomIcon :: "farm_condition \<Rightarrow> bool \<Rightarrow> divIcon" where
  "createCustomIcon st isSelected =
     (let sz = (if isSelected then 40 else 30) in
      \<lparr>color = statusColor st, size = sz, pulse = isSelected,
       iconSize = (sz, sz),
       iconAnchor = (real_of_int sz / 2, real_of_int sz / 2),
       popupAnchor = (0, - (real_of_int sz) / 2)\<rparr>)"

text \<open>
  The icon a marker gets at render:
  \<open>icon={createCustomIcon(farm.status, farm.id === selectedFarm)}\<close>.
\<close>

definition markerIcon :: "map_state \<Rightarrow> WindFarm \<Rightarrow> divIcon" where
  "markerIcon s farm = createCustomIcon (farm_status farm) (Some (farm_id farm) = selectedFarm s)"

text \<open>The emphasised variant is the larger, pulsing icon.\<close>

definition emphasized :: "divIcon \<Rightarrow> bool" where
  "emphasized ic = (pulse ic \<and> size ic = 40)"

definition emphasizedFarms :: "map_state \<Rightarrow> WindFarm list" where
  "emphasizedFarms s = filter (\<lambda>farm. emphasized (markerIcon s farm)) windFarms"

section \<open>Selection controller: the imperative map (WorkingFleetMap)\<close>

text \<open>
  \<open>WorkingFleetMap\<close> keeps the selection in component state and drives a Leaflet map
  held in a ref: \<open>mapRef.current\<close> is the map (here: its view, a centre and a zoom) or
  \<open>null\<close>, and \<open>markersRef.current\<close> maps each farm id to its marker (here: the
  marker's icon). The location set is the same array \<open>windFarms\<close>.
\<close>

record working_state =
  w_selectedFarm :: "string option"
  mapRef :: "((real \<times> real) \<times> int) option"
  markersRef :: "(string \<times> divIcon) list"

text \<open>The icons built inline by the handler: the one of the select branch and the
  reset icon of the deselect branch (the same as the icon of the mount effect).\<close>

definition selectBranchIcon :: "WindFarm \<Rightarrow> bool \<Rightarrow> divIcon" where
  "selectBranchIcon farm isSelected =
     (let sz = (if isSelected then 40 else 30) in
      \<lparr>color = statusColor (farm_status farm), size = sz, pulse = isSelected,
       iconSize = (sz, sz),
       iconAnchor = (real_of_int sz / 2, real_of_int sz / 2),
       popupAnchor = (0, - (real_of_int sz) / 2)\<rparr>)"

definition resetIcon :: "WindFarm \<Rightarrow> divIcon" where
  "resetIcon farm =
     \<lparr>color = statusColor (farm_status farm), size = 30, pulse = False,
      iconSize = (30, 30), iconAnchor = (15, 15), popupAnchor = (0, - 15)\<rparr>"

text \<open>The state after the mount effect has created the map and one marker per farm.\<close>

definition mounted_working_state :: working_state where
  "mounted_working_state =
     \<lparr>w_selectedFarm = None, mapRef = Some (overviewCenter, overviewZoom),
      markersRef = map (\<lambda>farm. (farm_id farm, resetIcon farm)) windFarms\<rparr>"

text \<open>
  One round of \<open>Object.keys(markersRef.current).forEach\<close>: a key with no farm is
  skipped (\<open>if (!farm) return\<close>), every other marker gets a new icon.
\<close>

definition restyle :: "(WindFarm \<Rightarrow> string \<Rightarrow> divIcon) \<Rightarrow> string \<times> divIcon \<Rightarrow> string \<times> divIcon" where
  "restyle mk entry =
     (case find (\<lambda>f. farm_id f = fst entry) windFarms of
        None \<Rightarrow> entry
      | Some farm \<Rightarrow> (fst entry, mk farm (fst entry)))"

text \<open>
  \<open>handleFarmClick\<close> of \<open>WorkingFleetMap\<close>. The function is created anew at every
  render and closes over the \<open>selectedFarm\<close> of that render: this captured value is
  the first argument here. Both tests of the body read it. \<open>mapRef\<close> and
  \<open>markersRef\<close> are refs, so the body sees their current contents.
\<close>

definition working_handleFarmClick ::
  "string option \<Rightarrow> string \<Rightarrow> real \<Rightarrow> real \<Rightarrow> working_state \<Rightarrow> working_state" where
  "working_handleFarmClick capturedSelectedFarm farmId lt lg s =
     (let s1 = s\<lparr>w_selectedFarm :=
                   (if Some farmId = capturedSelectedFarm then None else Some farmId)\<rparr> in
      case mapRef s of
        None \<Rightarrow> s1
      | Some m \<Rightarrow>
          if Some farmId \<noteq> capturedSelectedFarm then
            s1\<lparr>mapRef := Some ((lt, lg), 7),
               markersRef :=
                 map (restyle (\<lambda>farm i. selectBranchIcon farm (i = farmId))) (markersRef s)\<rparr>
          else
            s1\<lparr>mapRef := Some ((39.5, - 98.5), 4),
               markersRef := map (restyle (\<lambda>farm i. resetIcon farm)) (markersRef s)\<rparr>)"

text \<open>
  The two ways the component calls the handler, both with
  \<open>(farm.id, farm.lat, farm.lng)\<close> of a farm of \<open>windFarms\<close>.

  A farm card has \<open>onClick={() => handleFarmClick(farm.id, farm.lat, farm.lng)}\<close>,
  bound again at every render: it runs the handler of the current render, whose
  captured selection is the current one.

  A marker has the listener
  \<open>marker.on('click', () => { handleFarmClick(farm.id, farm.lat, farm.lng) })\<close>,
  registered once, in the mount effect (dependency array \<open>[]\<close>): it keeps running
  the handler of the first render, whose captured selection is the initial \<open>null\<close>
  of \<open>useState\<close>.
\<close>

definition working_cardClick :: "WindFarm \<Rightarrow> working_state \<Rightarrow> working_state" where
  "working_cardClick farm s =
     working_handleFarmClick (w_selectedFarm s) (farm_id farm) (lat farm) (lng farm) s"

definition working_markerClick :: "WindFarm \<Rightarrow> working_state \<Rightarrow> working_state" where
  "working_markerClick farm s =
     working_handleFarmClick None (farm_id farm) (lat farm) (lng farm) s"

section \<open>Conversation controller: GenieChat\<close>

text \<open>
  Strings are lists of 8-bit characters, so the model covers text whose UTF-16 code
  units are below 256. \<open>String.prototype.trim\<close> removes white space and line
  terminators at both ends; in that range these are the code units 9 to 13, 32 and 160.
\<close>

definition isWhiteSpace :: "char \<Rightarrow> bool" where
  "isWhiteSpace c =
     (let n = (of_char c :: nat) in (9 \<le> n \<and> n \<le> 13) \<or> n = 32 \<or> n = 160)"

definition trim :: "string \<Rightarrow> string" where
  "trim t = rev (dropWhile isWhiteSpace (rev (dropWhile isWhiteSpace t)))"

text \<open>\<open>Date.now().toString()\<close>: the decimal digits of an integer number of milliseconds.\<close>

definition digitChar :: "nat \<Rightarrow> char" where
  "digitChar d = ''0123456789'' ! d"

fun digits :: "nat \<Rightarrow> string" where
  "digits n = (if n < 10 then [digitChar n] else digits (n div 10) @ [digitChar (n mod 10)])"

declare digits.simps [simp del]

definition toString :: "int \<Rightarrow> string" where
  "toString i = (if i < 0 then CHR ''-'' # digits (nat (- i)) else digits (nat i))"

text \<open>
  The interface \<open>Message\<close>; its \<open>id\<close> is \<open>msg_id\<close> and its \<open>status\<close> is \<open>msg_status\<close>.
  A \<open>Date\<close> is either a reading of the local clock (\<open>new Date()\<close>, in milliseconds) or
  the result of parsing the responder's text (\<open>new Date(data.timestamp)\<close>), kept unparsed.
\<close>

datatype sender_kind = User | Assistant

datatype send_status = Sending | Sent | Error

datatype date = LocalTime int | ParsedTime string

datatype jsvalue = JNull | JBool bool | JNumber real | JString string

record QueryResults =
  columns :: "string list"
  column_types :: "string list option"
  data_rows :: "jsvalue list list"
  row_count :: int

record Message =
  msg_id :: string
  content :: string
  sender :: sender_kind
  timestamp :: date
  msg_status :: "send_status option"
  sql :: "string option"
  results :: "QueryResults option"

text \<open>
  The parsed body \<open>data\<close> of a response. The code tests \<open>conversation_id\<close> and
  \<open>message_id\<close> for truthiness, so they may be absent; \<open>sql_query\<close> and
  \<open>query_results\<close> are optional in the contract.
\<close>

record GenieData =
  conversation_id :: "string option"
  message_id :: "string option"
  data_content :: string
  data_timestamp :: string
  sql_query :: "string option"
  query_results :: "QueryResults option"

text \<open>JavaScript truthiness of an optional string: \<open>null\<close>, \<open>undefined\<close> and \<open>""\<close> are falsy.\<close>

definition truthy :: "string option \<Rightarrow> bool" where
  "truthy v = (case v of None \<Rightarrow> False | Some t \<Rightarrow> t \<noteq> [])"

text \<open>
  What the awaited \<open>fetch\<close> can deliver: the promise rejects (transport failure), or
  a response arrives with its \<open>ok\<close> flag and a body, which is \<open>None\<close> when
  \<open>response.json()\<close> rejects or yields \<open>null\<close> (reading a property of it then throws).
\<close>

datatype fetch_outcome = fetch_rejected | fetch_response bool "GenieData option"

text \<open>
  The component state of \<open>GenieChat\<close>: \<open>messages\<close>, \<open>input\<close>, \<open>isLoading\<close>,
  \<open>conversationId\<close>, \<open>error\<close> and \<open>showSqlFor\<close>.
\<close>

record chat_state =
  messages :: "Message list"
  input :: string
  isLoading :: bool
  conversationId :: "string option"
  error :: "string option"
  showSqlFor :: "string set"

definition greeting :: "int \<Rightarrow> Message" where
  "greeting t0 =
     \<lparr>msg_id = ''1'',
      content = ''Hello! I'm your AI-powered Wind Fleet Assistant. I can help you analyze turbine data, predict maintenance needs, and provide insights about your fleet. What would you like to know?'',
      sender = Assistant, timestamp = LocalTime t0, msg_status = None, sql = None,
      results = None\<rparr>"

definition initial_chat_state :: "int \<Rightarrow> chat_state" where
  "initial_chat_state t0 =
     \<lparr>messages = [greeting t0], input = [], isLoading = False, conversationId = None,
      error = None, showSqlFor = {}\<rparr>"

text \<open>\<open>toggleSqlVisibility(messageId)\<close>: a copy of the set with the id removed or added.\<close>

definition toggleSqlVisibility :: "string \<Rightarrow> chat_state \<Rightarrow> chat_state" where
  "toggleSqlVisibility messageId s =
     s\<lparr>showSqlFor :=
         (if messageId \<in> showSqlFor s then showSqlFor s - {messageId}
          else insert messageId (showSqlFor s))\<rparr>"

text \<open>
  \<open>sendMessage\<close> is an asynchronous function. \<open>sendMessage_call\<close> is its synchronous
  first part, up to the \<open>await fetch(...)\<close>: it returns \<open>None\<close> when the guard returns
  early, and otherwise the updated state, the values the function holds across the
  await (\<open>userMessage\<close> and the \<open>conversationId\<close> of its render) and the request it
  issues. The two clock readings are \<open>Date.now()\<close> for the id and \<open>new Date()\<close> for
  the timestamp.
\<close>

record send_closure =
  userMessage :: Message
  closureConversationId :: "string option"

record send_request =
  request_url :: string
  request_content :: string
  request_conversation_id :: "string option"

definition sendMessage_call ::
  "int \<Rightarrow> int \<Rightarrow> chat_state \<Rightarrow> (chat_state \<times> send_closure \<times> send_request) option" where
  "sendMessage_call nowId nowTs s =
     (if trim (input s) = [] \<or> isLoading s then None
      else
        let um = \<lparr>msg_id = toString nowId, content = trim (input s), sender = User,
                  timestamp = LocalTime nowTs, msg_status = Some Sending, sql = None,
                  results = None\<rparr>
        in Some (s\<lparr>messages := messages s @ [um], input := [], isLoading := True,
                    error := None\<rparr>,
                 \<lparr>userMessage = um, closureConversationId = conversationId s\<rparr>,
                 \<lparr>request_url = ''/api/genie/send-message'', request_content = content um,
                  request_conversation_id = conversationId s\<rparr>))"

text \<open>
  The rest of \<open>sendMessage\<close>, run when the fetch settles. A response that is \<open>ok\<close>
  with a readable body takes the \<open>try\<close> block to its end; every other outcome
  throws before any setter of the \<open>try\<close> block and lands in \<open>catch\<close>. The
  \<open>finally\<close> block runs on both paths. \<open>prev.slice(0, -1)\<close> is \<open>butlast\<close>.
  The last argument is the later \<open>Date.now()\<close> of the fallback id.
\<close>

definition assistantMessage :: "GenieData \<Rightarrow> int \<Rightarrow> Message" where
  "assistantMessage d nowFallback =
     \<lparr>msg_id = (case message_id d of
                  None \<Rightarrow> toString nowFallback
                | Some m \<Rightarrow> if m \<noteq> [] then m else toString nowFallback),
      content = data_content d, sender = Assistant,
      timestamp = ParsedTime (data_timestamp d), msg_status = None,
      sql = sql_query d, results = query_results d\<rparr>"

definition sendMessage_settle ::
  "send_closure \<Rightarrow> fetch_outcome \<Rightarrow> int \<Rightarrow> chat_state \<Rightarrow> chat_state" where
  "sendMessage_settle cl outcome nowFallback s =
     (case outcome of
        fetch_response True (Some d) \<Rightarrow>
          s\<lparr>conversationId :=
               (if \<not> truthy (closureConversationId cl) \<and> truthy (conversation_id d)
                then conversation_id d else conversationId s),
            messages :=
               butlast (messages s) @
                 [(userMessage cl)\<lparr>msg_status := Some Sent\<rparr>, assistantMessage d nowFallback],
            isLoading := False\<rparr>
      | _ \<Rightarrow>
          s\<lparr>error := Some ''Failed to send message. Please try again.'',
            messages := butlast (messages s) @ [(userMessage cl)\<lparr>msg_status := Some Error\<rparr>],
            isLoading := False\<rparr>)"

text \<open>The outcomes that end in the \<open>catch\<close> block.\<close>

definition send_failed :: "fetch_outcome \<Rightarrow> bool" where
  "send_failed outcome =
     (case outcome of fetch_response True (Some d) \<Rightarrow> False | _ \<Rightarrow> True)"

text \<open>One whole call of \<open>sendMessage\<close>, from the click to the end of \<open>finally\<close>.\<close>

definition sendMessage :: "int \<Rightarrow> int \<Rightarrow> fetch_outcome \<Rightarrow> int \<Rightarrow> chat_state \<Rightarrow> chat_state" where
  "sendMessage nowId nowTs outcome nowFallback s =
     (case sendMessage_call nowId nowTs s of
        None \<Rightarrow> s
      | Some (s1, cl, rq) \<Rightarrow> sendMessage_settle cl outcome nowFallback s1)"

text \<open>
  The controller as an event system. A session is the component state together
  with the suspended call of \<open>sendMessage\<close>, if there is one. The events are a
  submit (button or Enter key), the settling of the outstanding fetch, a click on a
  query toggle, and a change of the input text. An event that cannot happen in a
  session (a fetch settling when none is outstanding) leaves it as it is.
\<close>

record session =
  chat :: chat_state
  in_flight :: "send_closure option"

datatype event =
    Submit int int
  | Settle fetch_outcome int
  | ToggleSql string
  | SetInput string

fun step :: "event \<Rightarrow> session \<Rightarrow> session" where
  "step (Submit nowId nowTs) c =
     (case sendMessage_call nowId nowTs (chat c) of
        None \<Rightarrow> c
      | Some (s1, cl, rq) \<Rightarrow> \<lparr>chat = s1, in_flight = Some cl\<rparr>)"
| "step (Settle outcome nowFallback) c =
     (case in_flight c of
        None \<Rightarrow> c
      | Some cl \<Rightarrow> \<lparr>chat = sendMessage_settle cl outcome nowFallback (chat c), in_flight = None\<rparr>)"
| "step (ToggleSql messageId) c = c\<lparr>chat := toggleSqlVisibility messageId (chat c)\<rparr>"
| "step (SetInput txt) c = c\<lparr>chat := (chat c)\<lparr>input := txt\<rparr>\<rparr>"

fun run :: "event list \<Rightarrow> session \<Rightarrow> session" where
  "run [] c = c"
| "run (e # es) c = run es (step e c)"

definition initial_session :: "int \<Rightarrow> session" where
  "initial_session t0 = \<lparr>chat = initial_chat_state t0, in_flight = None\<rparr>"

text \<open>
  How a message list may evolve: each old message is still there at its index,
  either unchanged or, if it was a user message that was being sent, with its
  status moved to sent or to error and nothing else changed.
\<close>

text \<open>
  What holds of every session the events can produce: the list starts with the
  greeting, and a call is suspended exactly while \<open>isLoading\<close> is set, in which
  case the last message is the user message that call holds, still being sent.
\<close>

definition session_ok :: "int \<Rightarrow> session \<Rightarrow> bool" where
  "session_ok t0 c =
     (messages (chat c) \<noteq> [] \<and> hd (messages (chat c)) = greeting t0 \<and>
      (case in_flight c of
         None \<Rightarrow> \<not> isLoading (chat c)
       | Some cl \<Rightarrow>
           isLoading (chat c) \<and> 2 \<le> length (messages (chat c)) \<and>
           last (messages (chat c)) = userMessage cl \<and>
           sender (userMessage cl) = User \<and> msg_status (userMessage cl) = Some Sending))"

definition same_or_settled :: "Message \<Rightarrow> Message \<Rightarrow> bool" where
  "same_or_settled m m' =
     (m' = m \<or>
      (sender m = User \<and> msg_status m = Some Sending \<and>
       (m' = m\<lparr>msg_status := Some Sent\<rparr> \<or> m' = m\<lparr>msg_status := Some Error\<rparr>)))"

definition evolves :: "Message list \<Rightarrow> Message list \<Rightarrow> bool" where
  "evolves old new =
     (length old \<le> length new \<and> list_all2 same_or_settled old (take (length old) new))"

section \<open>Facts about the location set\<close>

lemma windFarms_ids:
  "map farm_id windFarms =
     [''tx-panhandle'', ''ia-corn'', ''ca-tehachapi'', ''wy-medicine'', ''ok-corridor'',
      ''il-prairie'']"
  by (simp add: windFarms_def)

lemma windFarms_distinct_ids: "distinct (map farm_id windFarms)"
  unfolding windFarms_ids by simp

lemma farm_id_inj:
  assumes "a \<in> set windFarms" "b \<in> set windFarms" "farm_id a = farm_id b"
  shows "a = b"
  using assms windFarms_distinct_ids by (meson distinct_map inj_onD)

lemma emphasized_markerIcon:
  "emphasized (markerIcon s farm) = (selectedFarm s = Some (farm_id farm))"
  by (auto simp: emphasized_def markerIcon_def createCustomIcon_def Let_def)

lemma filter_eq_singleton:
  assumes "distinct (map f xs)" "x \<in> set xs"
  shows "filter (\<lambda>y. f y = f x) xs = [x]"
  using assms
proof (induction xs)
  case Nil
  then show ?case by simp
next
  case (Cons y ys)
  show ?case
  proof (cases "y = x")
    case True
    with Cons.prems have "f x \<notin> f ` set ys" by simp
    then have "\<forall>z\<in>set ys. f z \<noteq> f x" by (metis imageI)
    then have "filter (\<lambda>z. f z = f x) ys = []" by (simp add: filter_empty_conv)
    with True show ?thesis by simp
  next
    case False
    with Cons.prems have "x \<in> set ys" "f y \<noteq> f x" by auto
    with Cons show ?thesis by simp
  qed
qed

lemma emphasizedFarms_selected:
  assumes "farm \<in> set windFarms" "selectedFarm s = Some (farm_id farm)"
  shows "emphasizedFarms s = [farm]"
proof -
  have "emphasizedFarms s = filter (\<lambda>y. farm_id y = farm_id farm) windFarms"
    using assms(2) by (simp add: emphasizedFarms_def emphasized_markerIcon eq_commute)
  then show ?thesis
    using filter_eq_singleton [OF windFarms_distinct_ids assms(1)] by simp
qed

lemma emphasizedFarms_none:
  assumes "\<forall>farm \<in> set windFarms. selectedFarm s \<noteq> Some (farm_id farm)"
  shows "emphasizedFarms s = []"
  using assms by (simp add: emphasizedFarms_def emphasized_markerIcon filter_empty_conv)

section \<open>Selection controller: how a click changes the state\<close>

lemma handleFarmClick_fields:
  "selectedFarm (handleFarmClick i a b s) = (if selectedFarm s = Some i then None else Some i)"
  "mapCenter (handleFarmClick i a b s) = (if selectedFarm s = Some i then overviewCenter else (a, b))"
  "mapZoom (handleFarmClick i a b s) = (if selectedFarm s = Some i then overviewZoom else zoomedInZoom)"
  by (auto simp: handleFarmClick_def)

lemma working_handleFarmClick_selected:
  "w_selectedFarm (working_handleFarmClick cap i a b w) =
     (if cap = Some i then None else Some i)"
  by (auto simp: working_handleFarmClick_def Let_def split: option.splits)

lemma working_handleFarmClick_mapRef:
  "mapRef (working_handleFarmClick cap i a b w) =
     (case mapRef w of
        None \<Rightarrow> None
      | Some m \<Rightarrow>
          Some (if cap = Some i then (overviewCenter, overviewZoom)
                else ((a, b), zoomedInZoom)))"
  by (auto simp: working_handleFarmClick_def Let_def overviewCenter_def overviewZoom_def
      zoomedInZoom_def split: option.splits)

text \<open>
  A marker click of \<open>WorkingFleetMap\<close> always takes the select branch, whatever the
  current selection: clicking the marker of the selected farm again leaves that farm
  selected and the mounted map zoomed in on it.
\<close>

lemma working_markerClick_selects:
  "w_selectedFarm (working_markerClick L w) = Some (farm_id L)
   \<and> mapRef (working_markerClick L w) =
       (case mapRef w of None \<Rightarrow> None | Some m \<Rightarrow> Some ((lat L, lng L), zoomedInZoom))"
  by (simp add: working_markerClick_def working_handleFarmClick_selected
      working_handleFarmClick_mapRef)

lemma working_markerClick_twice:
  "w_selectedFarm (working_markerClick L (working_markerClick L w)) = Some (farm_id L)"
  by (simp add: working_markerClick_selects)

lemma onFarmClick_inv:
  "selectedFarm (onFarmClick farm s) = None \<and> mapCenter (onFarmClick farm s) = overviewCenter
     \<and> mapZoom (onFarmClick farm s) = overviewZoom
   \<or> selectedFarm (onFarmClick farm s) = Some (farm_id farm)
     \<and> mapCenter (onFarmClick farm s) = (lat farm, lng farm)
     \<and> mapZoom (onFarmClick farm s) = zoomedInZoom"
  by (simp add: onFarmClick_def handleFarmClick_def)

lemma clicks_append: "clicks (xs @ ys) s = clicks ys (clicks xs s)"
  by (induction xs arbitrary: s) simp_all

lemma clicks_view:
  assumes "set farms \<subseteq> set windFarms"
  shows "selectedFarm (clicks farms initial_map_state) = None
           \<and> mapCenter (clicks farms initial_map_state) = overviewCenter
           \<and> mapZoom (clicks farms initial_map_state) = overviewZoom
         \<or> (\<exists>L \<in> set windFarms. selectedFarm (clicks farms initial_map_state) = Some (farm_id L)
           \<and> mapCenter (clicks farms initial_map_state) = (lat L, lng L)
           \<and> mapZoom (clicks farms initial_map_state) = zoomedInZoom)"
  using assms
proof (induction farms rule: rev_induct)
  case Nil
  then show ?case by (simp add: initial_map_state_def)
next
  case (snoc x xs)
  then have "x \<in> set windFarms" by simp
  with onFarmClick_inv [of x "clicks xs initial_map_state"]
  show ?case by (auto simp: clicks_append)
qed

section \<open>Selection controller: the claims\<close>

text \<open>
  Claim C3, as stated, for every selection state: two clicks on the same farm would
  give back the selection there was before. With another farm selected this fails:
  after selecting \<open>ia-corn\<close>, two clicks on \<open>tx-panhandle\<close> leave nothing selected.
\<close>

theorem toggle_twice_counterexample:
  "windFarms ! 0 \<in> set windFarms
   \<and> selectedFarm (onFarmClick (windFarms ! 1) initial_map_state) = Some ''ia-corn''
   \<and> selectedFarm (onFarmClick (windFarms ! 0) (onFarmClick (windFarms ! 0)
        (onFarmClick (windFarms ! 1) initial_map_state))) = None"
  by (simp add: windFarms_def onFarmClick_def handleFarmClick_def initial_map_state_def)

text \<open>
  Claim C3, amended. For every farm \<open>L\<close> of the location set and every state whose
  selection is empty or is \<open>L\<close>, two clicks on \<open>L\<close> in succession, each run by a
  handler that reads the current selection, give back the selection there was
  before; from the unselected state they also give back the overview centre and
  zoom. Such are all clicks of \<open>ProperFleetMap\<close> (markers and cards) and the clicks on
  the farm cards of \<open>WorkingFleetMap\<close>, there for the selection and for the view of a
  mounted map.
\<close>

theorem toggle_twice_restores:
  assumes "L \<in> set windFarms"
    and "selectedFarm s = None \<or> selectedFarm s = Some (farm_id L)"
    and "w_selectedFarm w = None \<or> w_selectedFarm w = Some (farm_id L)"
  shows "selectedFarm (onFarmClick L (onFarmClick L s)) = selectedFarm s
       \<and> (selectedFarm s = None \<longrightarrow>
            mapCenter (onFarmClick L (onFarmClick L s)) = overviewCenter
          \<and> mapZoom (onFarmClick L (onFarmClick L s)) = overviewZoom)
       \<and> w_selectedFarm (working_cardClick L (working_cardClick L w)) = w_selectedFarm w
       \<and> (w_selectedFarm w = None \<and> mapRef w \<noteq> None \<longrightarrow>
            mapRef (working_cardClick L (working_cardClick L w))
              = Some (overviewCenter, overviewZoom))"
  using assms(2,3)
  by (auto simp: onFarmClick_def working_cardClick_def handleFarmClick_fields
      working_handleFarmClick_selected working_handleFarmClick_mapRef)

theorem toggle_twice_restores_witness:
  "windFarms ! 0 \<in> set windFarms
   \<and> selectedFarm initial_map_state = None
   \<and> w_selectedFarm mounted_working_state = None
   \<and> mapRef mounted_working_state \<noteq> None
   \<and> selectedFarm (onFarmClick (windFarms ! 0) (onFarmClick (windFarms ! 0) initial_map_state)) = None
   \<and> mapCenter (onFarmClick (windFarms ! 0) (onFarmClick (windFarms ! 0) initial_map_state)) = (39.5, - 98.5)
   \<and> mapZoom (onFarmClick (windFarms ! 0) (onFarmClick (windFarms ! 0) initial_map_state)) = 4
   \<and> w_selectedFarm (working_cardClick (windFarms ! 0)
        (working_cardClick (windFarms ! 0) mounted_working_state)) = None
   \<and> mapRef (working_cardClick (windFarms ! 0)
        (working_cardClick (windFarms ! 0) mounted_working_state)) = Some ((39.5, - 98.5), 4)"
proof -
  have h: "windFarms ! 0 \<in> set windFarms" "selectedFarm initial_map_state = None"
    "w_selectedFarm mounted_working_state = None" "mapRef mounted_working_state \<noteq> None"
    by (simp_all add: windFarms_def initial_map_state_def mounted_working_state_def)
  from toggle_twice_restores [OF h(1), of initial_map_state mounted_working_state] h
  show ?thesis by (simp add: overviewCenter_def overviewZoom_def)
qed

text \<open>
  Claim C4. In every state reached from the initial one by clicks on farms of the
  location set, the selection is empty or is a farm of the set, and it determines the
  view and the emphasis: with no selection the view is the overview centre and zoom
  and no marker is emphasised; with farm \<open>L\<close> selected the view is centred on \<open>L\<close>
  at the zoomed-in level and the emphasised markers are exactly that of \<open>L\<close>.
\<close>

theorem view_and_emphasis_follow_selection:
  assumes "set farms \<subseteq> set windFarms"
  shows "(selectedFarm (clicks farms initial_map_state) = None \<or>
           (\<exists>L \<in> set windFarms. selectedFarm (clicks farms initial_map_state) = Some (farm_id L)))
       \<and> (selectedFarm (clicks farms initial_map_state) = None \<longrightarrow>
            mapCenter (clicks farms initial_map_state) = overviewCenter
          \<and> mapZoom (clicks farms initial_map_state) = overviewZoom
          \<and> emphasizedFarms (clicks farms initial_map_state) = [])
       \<and> (\<forall>L \<in> set windFarms. selectedFarm (clicks farms initial_map_state) = Some (farm_id L) \<longrightarrow>
            mapCenter (clicks farms initial_map_state) = (lat L, lng L)
          \<and> mapZoom (clicks farms initial_map_state) = zoomedInZoom
          \<and> emphasizedFarms (clicks farms initial_map_state) = [L])"
proof -
  let ?s = "clicks farms initial_map_state"
  note v = clicks_view [OF assms]
  have a: "selectedFarm ?s = None \<or> (\<exists>L \<in> set windFarms. selectedFarm ?s = Some (farm_id L))"
    using v by blast
  have b: "selectedFarm ?s = None \<longrightarrow>
            mapCenter ?s = overviewCenter \<and> mapZoom ?s = overviewZoom \<and> emphasizedFarms ?s = []"
    using v emphasizedFarms_none [of ?s] by auto
  have c: "\<forall>L \<in> set windFarms. selectedFarm ?s = Some (farm_id L) \<longrightarrow>
            mapCenter ?s = (lat L, lng L) \<and> mapZoom ?s = zoomedInZoom \<and> emphasizedFarms ?s = [L]"
  proof (intro ballI impI)
    fix L assume L: "L \<in> set windFarms" and sel: "selectedFarm ?s = Some (farm_id L)"
    from v sel obtain L' where L': "L' \<in> set windFarms" "farm_id L' = farm_id L"
      "mapCenter ?s = (lat L', lng L')" "mapZoom ?s = zoomedInZoom" by auto
    from farm_id_inj [OF L'(1) L L'(2)] have "L' = L" .
    with L' emphasizedFarms_selected [OF L sel]
    show "mapCenter ?s = (lat L, lng L) \<and> mapZoom ?s = zoomedInZoom \<and> emphasizedFarms ?s = [L]"
      by simp
  qed
  from a b c show ?thesis by blast
qed

theorem view_and_emphasis_follow_selection_witness:
  "set [windFarms ! 0, windFarms ! 2] \<subseteq> set windFarms
   \<and> windFarms ! 2 \<in> set windFarms
   \<and> selectedFarm (clicks [windFarms ! 0, windFarms ! 2] initial_map_state) = Some ''ca-tehachapi''
   \<and> mapCenter (clicks [windFarms ! 0, windFarms ! 2] initial_map_state) = (35.1, - 118.3)
   \<and> mapZoom (clicks [windFarms ! 0, windFarms ! 2] initial_map_state) = 7
   \<and> emphasizedFarms (clicks [windFarms ! 0, windFarms ! 2] initial_map_state) = [windFarms ! 2]"
proof -
  have h: "set [windFarms ! 0, windFarms ! 2] \<subseteq> set windFarms"
    by (simp add: windFarms_def)
  have m: "windFarms ! 2 \<in> set windFarms"
    by (simp add: windFarms_def)
  have sel: "selectedFarm (clicks [windFarms ! 0, windFarms ! 2] initial_map_state)
               = Some (farm_id (windFarms ! 2))"
    by (simp add: windFarms_def onFarmClick_def handleFarmClick_def initial_map_state_def)
  from view_and_emphasis_follow_selection [OF h] m sel
  have "mapCenter (clicks [windFarms ! 0, windFarms ! 2] initial_map_state)
          = (lat (windFarms ! 2), lng (windFarms ! 2))
      \<and> mapZoom (clicks [windFarms ! 0, windFarms ! 2] initial_map_state) = zoomedInZoom
      \<and> emphasizedFarms (clicks [windFarms ! 0, windFarms ! 2] initial_map_state) = [windFarms ! 2]"
    by blast
  with h m sel show ?thesis by (simp add: windFarms_def zoomedInZoom_def)
qed

text \<open>
  Claim C5. For distinct farms \<open>A\<close> and \<open>B\<close> of the location set and any state, a
  click on \<open>A\<close> followed by a click on \<open>B\<close> leaves \<open>B\<close> selected, the view centred
  on the position of \<open>B\<close> at the zoomed-in level.
\<close>

theorem select_other_overrides:
  assumes "A \<in> set windFarms" "B \<in> set windFarms" "A \<noteq> B"
  shows "selectedFarm (onFarmClick B (onFarmClick A s)) = Some (farm_id B)
       \<and> mapCenter (onFarmClick B (onFarmClick A s)) = (lat B, lng B)
       \<and> mapZoom (onFarmClick B (onFarmClick A s)) = zoomedInZoom"
proof -
  from assms farm_id_inj have "farm_id A \<noteq> farm_id B" by blast
  then show ?thesis by (simp add: onFarmClick_def handleFarmClick_def)
qed

theorem select_other_overrides_witness:
  "windFarms ! 0 \<in> set windFarms \<and> windFarms ! 1 \<in> set windFarms
   \<and> windFarms ! 0 \<noteq> windFarms ! 1
   \<and> selectedFarm (onFarmClick (windFarms ! 1) (onFarmClick (windFarms ! 0) initial_map_state))
       = Some ''ia-corn''
   \<and> mapCenter (onFarmClick (windFarms ! 1) (onFarmClick (windFarms ! 0) initial_map_state))
       = (42.0, - 93.5)
   \<and> mapZoom (onFarmClick (windFarms ! 1) (onFarmClick (windFarms ! 0) initial_map_state)) = 7"
proof -
  have h: "windFarms ! 0 \<in> set windFarms" "windFarms ! 1 \<in> set windFarms"
    "windFarms ! 0 \<noteq> windFarms ! 1"
    by (simp_all add: windFarms_def)
  from select_other_overrides [OF h, of initial_map_state] h
  show ?thesis by (simp add: windFarms_def zoomedInZoom_def)
qed

section \<open>Conversation controller: trimming, the two halves of a send, sessions\<close>

lemma dropWhile_all_iff: "list_all P (dropWhile P xs) \<longleftrightarrow> list_all P xs"
  by (induction xs) simp_all

lemma trim_Nil_iff: "trim t = [] \<longleftrightarrow> list_all isWhiteSpace t"
proof -
  have "trim t = [] \<longleftrightarrow> list_all isWhiteSpace (rev (dropWhile isWhiteSpace t))"
    by (simp add: trim_def dropWhile_eq_Nil_conv list_all_iff)
  also have "\<dots> \<longleftrightarrow> list_all isWhiteSpace (dropWhile isWhiteSpace t)"
    by (simp add: list_all_iff)
  also have "\<dots> \<longleftrightarrow> list_all isWhiteSpace t"
    by (rule dropWhile_all_iff)
  finally show ?thesis .
qed

lemma trim_examples:
  "trim ''How many turbines?'' = ''How many turbines?''" "trim ''Hi'' = ''Hi''"
  "trim ''   '' = []" "list_all isWhiteSpace ''   ''"
  by (simp_all add: trim_def isWhiteSpace_def)

lemma sendMessage_call_Some:
  assumes "sendMessage_call a b s = Some (s1, cl, rq)"
  shows "messages s1 = messages s @ [userMessage cl]" "isLoading s1" "\<not> isLoading s"
    "sender (userMessage cl) = User" "msg_status (userMessage cl) = Some Sending"
    "conversationId s1 = conversationId s" "showSqlFor s1 = showSqlFor s" "error s1 = None"
    "closureConversationId cl = conversationId s" "trim (input s) \<noteq> []"
    "content (userMessage cl) = trim (input s)"
  using assms by (auto simp: sendMessage_call_def Let_def split: if_splits)

lemma settle_messages:
  "\<exists>more. messages (sendMessage_settle cl outcome f s) =
     butlast (messages s) @
       (userMessage cl)\<lparr>msg_status := Some (if send_failed outcome then Error else Sent)\<rparr> # more"
  by (auto simp: sendMessage_settle_def send_failed_def
      split: fetch_outcome.splits bool.splits option.splits)

lemma settle_isLoading: "\<not> isLoading (sendMessage_settle cl outcome f s)"
  by (auto simp: sendMessage_settle_def split: fetch_outcome.splits bool.splits option.splits)

lemma session_ok_initial: "session_ok t0 (initial_session t0)"
  by (simp add: session_ok_def initial_session_def initial_chat_state_def)

lemma session_ok_step:
  assumes "session_ok t0 c"
  shows "session_ok t0 (step e c)"
proof (cases e)
  case (Submit a b)
  show ?thesis
  proof (cases "sendMessage_call a b (chat c)")
    case None
    with Submit assms show ?thesis by simp
  next
    case (Some r)
    obtain s1 cl rq where r: "r = (s1, cl, rq)" by (cases r)
    note f = sendMessage_call_Some [OF Some [unfolded r]]
    from assms have "messages (chat c) \<noteq> []" "hd (messages (chat c)) = greeting t0"
      by (simp_all add: session_ok_def)
    with f Submit Some r show ?thesis
      by (cases "messages (chat c)") (simp_all add: session_ok_def)
  qed
next
  case (Settle outcome f)
  show ?thesis
  proof (cases "in_flight c")
    case None
    with Settle assms show ?thesis by simp
  next
    case (Some cl)
    with assms have m: "2 \<le> length (messages (chat c))" "hd (messages (chat c)) = greeting t0"
      by (simp_all add: session_ok_def)
    then obtain x y ys where xs: "messages (chat c) = x # y # ys"
      by (cases "messages (chat c)"; cases "tl (messages (chat c))") auto
    from settle_messages [of cl outcome f "chat c"] obtain more where
      "messages (sendMessage_settle cl outcome f (chat c)) =
         butlast (messages (chat c)) @
           (userMessage cl)\<lparr>msg_status := Some (if send_failed outcome then Error else Sent)\<rparr> # more"
      by blast
    with xs m Settle Some show ?thesis
      by (simp add: session_ok_def settle_isLoading)
  qed
next
  case (ToggleSql i)
  with assms show ?thesis
    by (simp add: session_ok_def toggleSqlVisibility_def split: option.splits)
next
  case (SetInput newText)
  with assms show ?thesis
    by (simp add: session_ok_def split: option.splits)
qed

lemma session_ok_run:
  assumes "session_ok t0 c"
  shows "session_ok t0 (run es c)"
  using assms by (induction es arbitrary: c) (simp_all add: session_ok_step)

lemma run_append: "run (es @ es') c = run es' (run es c)"
  by (induction es arbitrary: c) simp_all

lemma same_or_settled_refl: "same_or_settled m m"
  by (simp add: same_or_settled_def)

lemma same_or_settled_trans:
  assumes "same_or_settled a b" "same_or_settled b c"
  shows "same_or_settled a c"
  using assms by (auto simp: same_or_settled_def)

lemma evolves_refl: "evolves xs xs"
  by (simp add: evolves_def list_all2_refl same_or_settled_refl)

lemma evolves_trans:
  assumes "evolves xs ys" "evolves ys zs"
  shows "evolves xs zs"
proof -
  from assms have len: "length xs \<le> length ys" "length ys \<le> length zs"
    by (simp_all add: evolves_def)
  have "same_or_settled (xs ! i) (zs ! i)" if "i < length xs" for i
  proof -
    from that len assms(1) have "same_or_settled (xs ! i) (ys ! i)"
      by (auto simp: evolves_def list_all2_conv_all_nth)
    moreover from that len assms(2) have "same_or_settled (ys ! i) (zs ! i)"
      by (auto simp: evolves_def list_all2_conv_all_nth)
    ultimately show ?thesis by (rule same_or_settled_trans)
  qed
  with len show ?thesis
    by (simp add: evolves_def list_all2_conv_all_nth)
qed

lemma evolves_append: "evolves xs (xs @ ys)"
  by (simp add: evolves_def list_all2_refl same_or_settled_refl)

lemma evolves_settle_last:
  assumes "xs \<noteq> []" "same_or_settled (last xs) m"
  shows "evolves xs (butlast xs @ m # ys)"
proof -
  from assms(1) have xs: "xs = butlast xs @ [last xs]" by simp
  have "list_all2 same_or_settled (butlast xs @ [last xs]) (butlast xs @ [m])"
    using assms(2) by (simp add: list_all2_appendI list_all2_refl same_or_settled_refl)
  moreover have "take (length xs) (butlast xs @ m # ys) = butlast xs @ [m]"
    using assms(1) by (simp add: Suc_diff_le not_less_eq_eq [symmetric] length_greater_0_conv [symmetric] del: length_greater_0_conv)
  ultimately show ?thesis
    using xs by (simp add: evolves_def)
qed

lemma step_evolves:
  assumes "session_ok t0 c"
  shows "evolves (messages (chat c)) (messages (chat (step e c)))"
proof (cases e)
  case (Submit a b)
  show ?thesis
  proof (cases "sendMessage_call a b (chat c)")
    case None
    with Submit show ?thesis by (simp add: evolves_refl)
  next
    case (Some r)
    obtain s1 cl rq where r: "r = (s1, cl, rq)" by (cases r)
    from sendMessage_call_Some(1) [OF Some [unfolded r]] Submit Some r
    show ?thesis by (simp add: evolves_append)
  qed
next
  case (Settle outcome f)
  show ?thesis
  proof (cases "in_flight c")
    case None
    with Settle show ?thesis by (simp add: evolves_refl)
  next
    case (Some cl)
    with assms have m: "messages (chat c) \<noteq> []" "last (messages (chat c)) = userMessage cl"
      "sender (userMessage cl) = User" "msg_status (userMessage cl) = Some Sending"
      by (simp_all add: session_ok_def)
    then have "same_or_settled (last (messages (chat c)))
        ((userMessage cl)\<lparr>msg_status := Some (if send_failed outcome then Error else Sent)\<rparr>)"
      by (simp add: same_or_settled_def)
    from evolves_settle_last [OF m(1) this] settle_messages [of cl outcome f "chat c"]
    show ?thesis using Settle Some by auto
  qed
next
  case (ToggleSql i)
  then show ?thesis by (simp add: toggleSqlVisibility_def evolves_refl)
next
  case (SetInput newText)
  then show ?thesis by (simp add: evolves_refl)
qed

lemma run_evolves:
  assumes "session_ok t0 c"
  shows "evolves (messages (chat c)) (messages (chat (run es c)))"
  using assms
proof (induction es arbitrary: c)
  case Nil
  then show ?case by (simp add: evolves_refl)
next
  case (Cons e es)
  from Cons.prems have "session_ok t0 (step e c)" by (rule session_ok_step)
  from Cons.IH [OF this] step_evolves [OF Cons.prems, of e]
  show ?case by (simp add: evolves_trans)
qed

lemma example_run:
  "run [SetInput ''Hi'', Submit 1 2] (initial_session 0) =
     \<lparr>chat = \<lparr>messages =
                [greeting 0,
                 \<lparr>msg_id = toString 1, content = ''Hi'', sender = User, timestamp = LocalTime 2,
                  msg_status = Some Sending, sql = None, results = None\<rparr>],
              input = [], isLoading = True, conversationId = None, error = None,
              showSqlFor = {}\<rparr>,
      in_flight =
        Some \<lparr>userMessage =
                \<lparr>msg_id = toString 1, content = ''Hi'', sender = User, timestamp = LocalTime 2,
                 msg_status = Some Sending, sql = None, results = None\<rparr>,
              closureConversationId = None\<rparr>\<rparr>"
  by (simp add: initial_session_def initial_chat_state_def sendMessage_call_def trim_examples
      Let_def)

section \<open>Conversation controller: the claims\<close>

text \<open>
  Claim C1, as stated: on success the conversation id of the response would be
  adopted whenever none was set. The code adopts it only if it is truthy: a response
  whose \<open>conversation_id\<close> is the empty string leaves the conversation id unset.
\<close>

theorem send_success_counterexample:
  "trim (input ((initial_chat_state 0)\<lparr>input := ''Hi''\<rparr>)) \<noteq> []
   \<and> \<not> isLoading ((initial_chat_state 0)\<lparr>input := ''Hi''\<rparr>)
   \<and> conversationId ((initial_chat_state 0)\<lparr>input := ''Hi''\<rparr>) = None
   \<and> conversationId
        (sendMessage 1 2
           (fetch_response True
              (Some \<lparr>conversation_id = Some [], message_id = Some ''m1'', data_content = ''ok'',
                     data_timestamp = ''2024-01-01T00:00:00Z'', sql_query = None,
                     query_results = None\<rparr>))
           3 ((initial_chat_state 0)\<lparr>input := ''Hi''\<rparr>))
       \<noteq> conversation_id
            \<lparr>conversation_id = Some [], message_id = Some ''m1'', data_content = ''ok'',
             data_timestamp = ''2024-01-01T00:00:00Z'', sql_query = None,
             query_results = None\<rparr>"
  by (simp add: trim_examples initial_chat_state_def sendMessage_def sendMessage_call_def
      sendMessage_settle_def Let_def truthy_def)

text \<open>
  Claim C1, amended. A call of \<open>sendMessage\<close> with non-blank input while nothing is
  loading, whose fetch returns an \<open>ok\<close> response with a readable body, appends exactly
  two messages: the user message with status \<open>Sent\<close> and the assistant message built
  from the response (content, query, results). If no conversation id was set, the
  one of the response is adopted when it is present and non-empty, and the
  conversation id stays unset otherwise; a conversation id that was set is kept.
  \<open>isLoading\<close> is false at the end.
\<close>

theorem send_success:
  assumes "trim (input s) \<noteq> []" "\<not> isLoading s"
  shows "messages (sendMessage a b (fetch_response True (Some d)) f s) =
           messages s @
             [\<lparr>msg_id = toString a, content = trim (input s), sender = User,
               timestamp = LocalTime b, msg_status = Some Sent, sql = None, results = None\<rparr>,
              \<lparr>msg_id = (case message_id d of None \<Rightarrow> toString f
                         | Some m \<Rightarrow> if m \<noteq> [] then m else toString f),
               content = data_content d, sender = Assistant,
               timestamp = ParsedTime (data_timestamp d), msg_status = None,
               sql = sql_query d, results = query_results d\<rparr>]
       \<and> length (messages (sendMessage a b (fetch_response True (Some d)) f s)) =
           length (messages s) + 2
       \<and> (conversationId s = None \<and> truthy (conversation_id d) \<longrightarrow>
            conversationId (sendMessage a b (fetch_response True (Some d)) f s) = conversation_id d)
       \<and> (conversationId s = None \<and> \<not> truthy (conversation_id d) \<longrightarrow>
            conversationId (sendMessage a b (fetch_response True (Some d)) f s) = None)
       \<and> (truthy (conversationId s) \<longrightarrow>
            conversationId (sendMessage a b (fetch_response True (Some d)) f s) = conversationId s)
       \<and> \<not> isLoading (sendMessage a b (fetch_response True (Some d)) f s)"
  using assms
  by (simp add: sendMessage_def sendMessage_call_def sendMessage_settle_def Let_def
      assistantMessage_def truthy_def)

theorem send_success_witness:
  "trim (input ((initial_chat_state 0)\<lparr>input := ''How many turbines?''\<rparr>)) \<noteq> []
   \<and> \<not> isLoading ((initial_chat_state 0)\<lparr>input := ''How many turbines?''\<rparr>)
   \<and> length (messages
        (sendMessage 1 2
           (fetch_response True
              (Some \<lparr>conversation_id = Some ''c1'', message_id = Some ''m1'',
                     data_content = ''25'', data_timestamp = ''2024-01-01T00:00:00Z'',
                     sql_query = None, query_results = None\<rparr>))
           3 ((initial_chat_state 0)\<lparr>input := ''How many turbines?''\<rparr>))) = 3
   \<and> conversationId
        (sendMessage 1 2
           (fetch_response True
              (Some \<lparr>conversation_id = Some ''c1'', message_id = Some ''m1'',
                     data_content = ''25'', data_timestamp = ''2024-01-01T00:00:00Z'',
                     sql_query = None, query_results = None\<rparr>))
           3 ((initial_chat_state 0)\<lparr>input := ''How many turbines?''\<rparr>)) = Some ''c1''
   \<and> \<not> isLoading
        (sendMessage 1 2
           (fetch_response True
              (Some \<lparr>conversation_id = Some ''c1'', message_id = Some ''m1'',
                     data_content = ''25'', data_timestamp = ''2024-01-01T00:00:00Z'',
                     sql_query = None, query_results = None\<rparr>))
           3 ((initial_chat_state 0)\<lparr>input := ''How many turbines?''\<rparr>))"
proof -
  have h: "trim (input ((initial_chat_state 0)\<lparr>input := ''How many turbines?''\<rparr>)) \<noteq> []"
    "\<not> isLoading ((initial_chat_state 0)\<lparr>input := ''How many turbines?''\<rparr>)"
    by (simp_all add: trim_examples initial_chat_state_def)
  from send_success [OF h, of 1 2
      "\<lparr>conversation_id = Some ''c1'', message_id = Some ''m1'',
        data_content = ''25'', data_timestamp = ''2024-01-01T00:00:00Z'',
        sql_query = None, query_results = None\<rparr>" 3] h
  show ?thesis by (simp add: initial_chat_state_def truthy_def)
qed

text \<open>
  Claim C2. A call of \<open>sendMessage\<close> with non-blank input while nothing is loading,
  whose fetch is rejected, returns a response that is not \<open>ok\<close>, or returns a body
  that cannot be read, appends exactly one message, the user message with status
  \<open>Error\<close>, and no assistant message; \<open>error\<close> is set to a non-empty text and
  \<open>isLoading\<close> is false at the end.
\<close>

theorem send_failure:
  assumes "trim (input s) \<noteq> []" "\<not> isLoading s"
    and "outcome = fetch_rejected \<or> (\<exists>body. outcome = fetch_response False body)
         \<or> outcome = fetch_response True None"
  shows "messages (sendMessage a b outcome f s) =
           messages s @
             [\<lparr>msg_id = toString a, content = trim (input s), sender = User,
               timestamp = LocalTime b, msg_status = Some Error, sql = None, results = None\<rparr>]
       \<and> length (messages (sendMessage a b outcome f s)) = length (messages s) + 1
       \<and> error (sendMessage a b outcome f s) = Some ''Failed to send message. Please try again.''
       \<and> error (sendMessage a b outcome f s) \<noteq> None
       \<and> error (sendMessage a b outcome f s) \<noteq> Some []
       \<and> conversationId (sendMessage a b outcome f s) = conversationId s
       \<and> \<not> isLoading (sendMessage a b outcome f s)"
  using assms
  by (auto simp: sendMessage_def sendMessage_call_def sendMessage_settle_def Let_def)

theorem send_failure_witness:
  "trim (input ((initial_chat_state 0)\<lparr>input := ''Hi''\<rparr>)) \<noteq> []
   \<and> \<not> isLoading ((initial_chat_state 0)\<lparr>input := ''Hi''\<rparr>)
   \<and> length (messages (sendMessage 1 2 (fetch_response False None) 3
        ((initial_chat_state 0)\<lparr>input := ''Hi''\<rparr>))) = 2
   \<and> msg_status (last (messages (sendMessage 1 2 (fetch_response False None) 3
        ((initial_chat_state 0)\<lparr>input := ''Hi''\<rparr>)))) = Some Error
   \<and> error (sendMessage 1 2 (fetch_response False None) 3
        ((initial_chat_state 0)\<lparr>input := ''Hi''\<rparr>))
      = Some ''Failed to send message. Please try again.''
   \<and> \<not> isLoading (sendMessage 1 2 (fetch_response False None) 3
        ((initial_chat_state 0)\<lparr>input := ''Hi''\<rparr>))"
proof -
  have h: "trim (input ((initial_chat_state 0)\<lparr>input := ''Hi''\<rparr>)) \<noteq> []"
    "\<not> isLoading ((initial_chat_state 0)\<lparr>input := ''Hi''\<rparr>)"
    by (simp_all add: trim_examples initial_chat_state_def)
  have o: "fetch_response False None = fetch_rejected
           \<or> (\<exists>body. fetch_response False None = fetch_response False body)
           \<or> fetch_response False None = fetch_response True None"
    by simp
  from send_failure [OF h o, of 1 2 3] h
  show ?thesis by (simp add: initial_chat_state_def)
qed

text \<open>
  Claim C6. \<open>sendMessage\<close> does nothing when the input is empty or consists of white
  space only, and when \<open>isLoading\<close> is set: no request is issued and the state is
  left as it is. A call that does issue a request sets \<open>isLoading\<close>, so that a further
  call is rejected; hence in every session the events can produce, a submit while a
  call is suspended changes nothing, and at most one request is outstanding.
\<close>

theorem send_guard:
  "(list_all isWhiteSpace (input s) \<or> isLoading s \<longrightarrow>
      sendMessage_call a b s = None \<and> sendMessage a b outcome f s = s)
   \<and> (\<forall>p1 cl rq. sendMessage_call a b p = Some (p1, cl, rq) \<longrightarrow>
        isLoading p1 \<and> sendMessage_call a' b' p1 = None)
   \<and> (in_flight (run es (initial_session t0)) \<noteq> None \<longrightarrow>
        step (Submit a b) (run es (initial_session t0)) = run es (initial_session t0))"
proof -
  have 1: "list_all isWhiteSpace (input s) \<or> isLoading s \<longrightarrow>
      sendMessage_call a b s = None \<and> sendMessage a b outcome f s = s"
    by (auto simp: sendMessage_def sendMessage_call_def trim_Nil_iff)
  have 2: "\<forall>p1 cl rq. sendMessage_call a b p = Some (p1, cl, rq) \<longrightarrow>
        isLoading p1 \<and> sendMessage_call a' b' p1 = None"
  proof (intro allI impI)
    fix p1 cl rq assume "sendMessage_call a b p = Some (p1, cl, rq)"
    from sendMessage_call_Some(2) [OF this]
    show "isLoading p1 \<and> sendMessage_call a' b' p1 = None"
      by (simp add: sendMessage_call_def)
  qed
  have 3: "in_flight (run es (initial_session t0)) \<noteq> None \<longrightarrow>
        step (Submit a b) (run es (initial_session t0)) = run es (initial_session t0)"
  proof
    assume n: "in_flight (run es (initial_session t0)) \<noteq> None"
    have "session_ok t0 (run es (initial_session t0))"
      by (rule session_ok_run [OF session_ok_initial])
    with n have "isLoading (chat (run es (initial_session t0)))"
      by (auto simp: session_ok_def)
    then show "step (Submit a b) (run es (initial_session t0)) = run es (initial_session t0)"
      by (simp add: sendMessage_call_def)
  qed
  from 1 2 3 show ?thesis by blast
qed

theorem send_guard_witness:
  "list_all isWhiteSpace (input ((initial_chat_state 0)\<lparr>input := ''   ''\<rparr>))
   \<and> sendMessage_call 1 2 ((initial_chat_state 0)\<lparr>input := ''   ''\<rparr>) = None
   \<and> sendMessage 1 2 fetch_rejected 3 ((initial_chat_state 0)\<lparr>input := ''   ''\<rparr>)
      = (initial_chat_state 0)\<lparr>input := ''   ''\<rparr>
   \<and> (\<exists>p1 cl rq. sendMessage_call 1 2 ((initial_chat_state 0)\<lparr>input := ''Hi''\<rparr>)
                     = Some (p1, cl, rq)
         \<and> isLoading p1 \<and> sendMessage_call 4 5 p1 = None)
   \<and> in_flight (run [SetInput ''Hi'', Submit 1 2] (initial_session 0)) \<noteq> None
   \<and> step (Submit 1 2) (run [SetInput ''Hi'', Submit 1 2] (initial_session 0))
      = run [SetInput ''Hi'', Submit 1 2] (initial_session 0)"
proof -
  have b: "list_all isWhiteSpace (input ((initial_chat_state 0)\<lparr>input := ''   ''\<rparr>))"
    by (simp add: isWhiteSpace_def)
  obtain p1 cl rq where c:
    "sendMessage_call 1 2 ((initial_chat_state 0)\<lparr>input := ''Hi''\<rparr>) = Some (p1, cl, rq)"
    by (simp add: sendMessage_call_def trim_examples initial_chat_state_def Let_def)
  have n: "in_flight (run [SetInput ''Hi'', Submit 1 2] (initial_session 0)) \<noteq> None"
    unfolding example_run by simp
  note g = send_guard [of "(initial_chat_state 0)\<lparr>input := ''   ''\<rparr>" 1 2 fetch_rejected 3
      "(initial_chat_state 0)\<lparr>input := ''Hi''\<rparr>" 4 5 "[SetInput ''Hi'', Submit 1 2]" 0]
  from g b have 1: "sendMessage_call 1 2 ((initial_chat_state 0)\<lparr>input := ''   ''\<rparr>) = None
     \<and> sendMessage 1 2 fetch_rejected 3 ((initial_chat_state 0)\<lparr>input := ''   ''\<rparr>)
        = (initial_chat_state 0)\<lparr>input := ''   ''\<rparr>"
    by blast
  from g c have 2: "isLoading p1 \<and> sendMessage_call 4 5 p1 = None"
    by blast
  from g n have 3: "step (Submit 1 2) (run [SetInput ''Hi'', Submit 1 2] (initial_session 0))
      = run [SetInput ''Hi'', Submit 1 2] (initial_session 0)"
    by blast
  from b 1 2 3 c n show ?thesis by blast
qed

text \<open>
  Claim C8. Along every sequence of events the message list only evolves: it never
  gets shorter, every message stays at its index, and a message changes only by a
  user message moving from \<open>Sending\<close> to \<open>Sent\<close> or to \<open>Error\<close>, all other fields
  kept. A message whose status is not \<open>Sending\<close> never changes again. In a single
  step the only message that can change is the last one, when the step settles the
  outstanding fetch and that message is the user message of the suspended call.
\<close>

theorem messages_append_only:
  "evolves (messages (chat (run es (initial_session t0))))
           (messages (chat (run (es @ es') (initial_session t0))))
   \<and> (\<forall>i < length (messages (chat (run es (initial_session t0)))).
        msg_status (messages (chat (run es (initial_session t0))) ! i) \<noteq> Some Sending \<longrightarrow>
        messages (chat (run (es @ es') (initial_session t0))) ! i =
        messages (chat (run es (initial_session t0))) ! i)
   \<and> (\<forall>i < length (messages (chat (run es (initial_session t0)))).
        messages (chat (step e (run es (initial_session t0)))) ! i \<noteq>
        messages (chat (run es (initial_session t0))) ! i \<longrightarrow>
        Suc i = length (messages (chat (run es (initial_session t0))))
        \<and> (\<exists>outcome f. e = Settle outcome f)
        \<and> (\<exists>cl. in_flight (run es (initial_session t0)) = Some cl
               \<and> messages (chat (run es (initial_session t0))) ! i = userMessage cl))"
proof -
  let ?c = "run es (initial_session t0)"
  have ok: "session_ok t0 ?c"
    by (rule session_ok_run [OF session_ok_initial])
  have 1: "evolves (messages (chat ?c)) (messages (chat (run (es @ es') (initial_session t0))))"
    using run_evolves [OF ok, of es'] by (simp add: run_append)
  have 2: "\<forall>i < length (messages (chat ?c)).
        msg_status (messages (chat ?c) ! i) \<noteq> Some Sending \<longrightarrow>
        messages (chat (run (es @ es') (initial_session t0))) ! i = messages (chat ?c) ! i"
    using 1 by (auto simp: evolves_def list_all2_conv_all_nth same_or_settled_def)
  have 3: "\<forall>i < length (messages (chat ?c)).
        messages (chat (step e ?c)) ! i \<noteq> messages (chat ?c) ! i \<longrightarrow>
        Suc i = length (messages (chat ?c))
        \<and> (\<exists>outcome f. e = Settle outcome f)
        \<and> (\<exists>cl. in_flight ?c = Some cl \<and> messages (chat ?c) ! i = userMessage cl)"
  proof (intro allI impI)
    fix i assume i: "i < length (messages (chat ?c))"
      and ne: "messages (chat (step e ?c)) ! i \<noteq> messages (chat ?c) ! i"
    show "Suc i = length (messages (chat ?c))
        \<and> (\<exists>outcome f. e = Settle outcome f)
        \<and> (\<exists>cl. in_flight ?c = Some cl \<and> messages (chat ?c) ! i = userMessage cl)"
    proof (cases e)
      case (Submit a b)
      show ?thesis
      proof (cases "sendMessage_call a b (chat ?c)")
        case None
        with Submit ne show ?thesis by simp
      next
        case (Some r)
        obtain s1 cl rq where r: "r = (s1, cl, rq)" by (cases r)
        from sendMessage_call_Some(1) [OF Some [unfolded r]] Submit Some r i ne
        show ?thesis by (simp add: nth_append)
      qed
    next
      case (Settle outcome f)
      show ?thesis
      proof (cases "in_flight ?c")
        case None
        with Settle ne show ?thesis by simp
      next
        case (Some cl)
        with ok have l: "last (messages (chat ?c)) = userMessage cl" "messages (chat ?c) \<noteq> []"
          by (simp_all add: session_ok_def)
        have "Suc i = length (messages (chat ?c))"
        proof (rule ccontr)
          assume "Suc i \<noteq> length (messages (chat ?c))"
          with i have "i < length (butlast (messages (chat ?c)))" by simp
          with Settle Some ne settle_messages [of cl outcome f "chat ?c"] show False
            by (auto simp: nth_append nth_butlast)
        qed
        moreover from this l have "messages (chat ?c) ! i = userMessage cl"
          by (metis diff_Suc_1 last_conv_nth)
        ultimately show ?thesis using Settle Some by simp
      qed
    next
      case (ToggleSql m)
      with ne show ?thesis by (simp add: toggleSqlVisibility_def)
    next
      case (SetInput newText)
      with ne show ?thesis by simp
    qed
  qed
  from 1 2 3 show ?thesis by blast
qed

theorem messages_append_only_witness:
  "0 < length (messages (chat (run [SetInput ''Hi'', Submit 1 2] (initial_session 0))))
   \<and> msg_status (messages (chat (run [SetInput ''Hi'', Submit 1 2] (initial_session 0))) ! 0)
       \<noteq> Some Sending
   \<and> messages (chat (run ([SetInput ''Hi'', Submit 1 2] @ [Settle fetch_rejected 3])
        (initial_session 0))) ! 0 = greeting 0
   \<and> 1 < length (messages (chat (run [SetInput ''Hi'', Submit 1 2] (initial_session 0))))
   \<and> messages (chat (step (Settle fetch_rejected 3)
        (run [SetInput ''Hi'', Submit 1 2] (initial_session 0)))) ! 1
       \<noteq> messages (chat (run [SetInput ''Hi'', Submit 1 2] (initial_session 0))) ! 1
   \<and> in_flight (run [SetInput ''Hi'', Submit 1 2] (initial_session 0)) =
       Some \<lparr>userMessage =
               messages (chat (run [SetInput ''Hi'', Submit 1 2] (initial_session 0))) ! 1,
             closureConversationId = None\<rparr>"
proof -
  let ?c = "run [SetInput ''Hi'', Submit 1 2] (initial_session 0)"
  note t = messages_append_only [of "[SetInput ''Hi'', Submit 1 2]" 0 "[Settle fetch_rejected 3]"
      "Settle fetch_rejected 3"]
  have l: "0 < length (messages (chat ?c))" "1 < length (messages (chat ?c))"
    unfolding example_run by simp_all
  have g: "msg_status (messages (chat ?c) ! 0) \<noteq> Some Sending" "messages (chat ?c) ! 0 = greeting 0"
    unfolding example_run by (simp_all add: greeting_def)
  have ne: "messages (chat (step (Settle fetch_rejected 3) ?c)) ! 1 \<noteq> messages (chat ?c) ! 1"
    unfolding example_run by (simp add: sendMessage_settle_def)
  from t l(1) g have 1: "messages (chat (run ([SetInput ''Hi'', Submit 1 2] @ [Settle fetch_rejected 3])
        (initial_session 0))) ! 0 = greeting 0"
    by metis
  from t l(2) ne obtain cl where "in_flight ?c = Some cl" "messages (chat ?c) ! 1 = userMessage cl"
    by blast
  then have 2: "in_flight ?c = Some \<lparr>userMessage = messages (chat ?c) ! 1, closureConversationId = None\<rparr>"
    unfolding example_run by simp
  from l g 1 ne 2 show ?thesis by blast
qed

text \<open>
  Claim C9. For every message id and every state, \<open>toggleSqlVisibility\<close> flips the
  membership of that id in \<open>showSqlFor\<close>, leaves the membership of every other id and
  all other state as they were, and applied twice gives back the state it started
  from.
\<close>

theorem toggle_query_flips:
  "(messageId \<in> showSqlFor (toggleSqlVisibility messageId s)) = (messageId \<notin> showSqlFor s)
   \<and> showSqlFor (toggleSqlVisibility messageId s) - {messageId} = showSqlFor s - {messageId}
   \<and> messages (toggleSqlVisibility messageId s) = messages s
   \<and> input (toggleSqlVisibility messageId s) = input s
   \<and> isLoading (toggleSqlVisibility messageId s) = isLoading s
   \<and> conversationId (toggleSqlVisibility messageId s) = conversationId s
   \<and> error (toggleSqlVisibility messageId s) = error s
   \<and> toggleSqlVisibility messageId (toggleSqlVisibility messageId s) = s"
  by (cases s) (auto simp: toggleSqlVisibility_def insert_absorb)

text \<open>
  Claim C10. In every session the events can produce from the initial one, the
  message list is not empty and its first element is the greeting.
\<close>

theorem greeting_stays_first:
  "messages (chat (run es (initial_session t0))) \<noteq> []
   \<and> hd (messages (chat (run es (initial_session t0)))) = greeting t0"
  using session_ok_run [OF session_ok_initial, of t0 es] by (simp add: session_ok_def)

end
